theory Spec2Isabelle
  imports Complex_Main
begin

section \<open>The editable selection group of the map editor\<close>

text \<open>
  A shallow embedding of the class \<open>RenderSelectionGroupEditable\<close>
  (\<open>opengl/mesh/selection/render_selection_group_editable.py\<close>): a list of committed
  selection boxes, at most one active box that is being created or resized, the cursor
  and the index of the box under the cursor.

  Python integers are \<open>int\<close>; an index into the list of boxes follows Python's rules
  (a negative index counts from the end, an index out of range raises \<open>IndexError\<close>).
  Every method takes the editor and gives back an outcome: the value returned with the
  editor as the method left it, or the exception raised with the editor as it was at the
  raise (the object lives on after an exception, with the assignments made so far).
\<close>

subsection \<open>The boxes\<close>

type_synonym point = "int \<times> int \<times> int"

text \<open>
  Modelled from the spec: the classes \<open>RenderSelection\<close> and \<open>RenderSelectionEditable\<close>
  are not part of the source at hand. Of a committed box the editor uses the two corners
  \<open>point1\<close> and \<open>point2\<close>, which are stored by value; an editable box has in addition
  one of the two sub-states dynamic and static.
\<close>

record render_selection =
  point1 :: point
  point2 :: point

record render_selection_editable = render_selection +
  being_resized :: bool

text \<open>
  Modelled from the spec: the constructors of the two classes are not part of the source
  at hand. A new editable box is dynamic; the corners of a new box are the origin until
  they are assigned.
\<close>

definition new_render_selection :: render_selection where
  "new_render_selection = \<lparr>point1 = (0, 0, 0), point2 = (0, 0, 0)\<rparr>"

definition new_editable_render_selection :: render_selection_editable where
  "new_editable_render_selection =
     \<lparr>point1 = (0, 0, 0), point2 = (0, 0, 0), being_resized = True\<rparr>"

text \<open>
  Modelled from the spec: \<open>is_dynamic\<close>, \<open>is_static\<close> and \<open>lock\<close> of
  \<open>RenderSelectionEditable\<close> are not part of the source at hand. A box is static exactly
  when it is not dynamic, and \<open>lock\<close> makes it static with its corners as they are.
\<close>

definition is_dynamic :: "render_selection_editable \<Rightarrow> bool" where
  "is_dynamic b = being_resized b"

definition is_static :: "render_selection_editable \<Rightarrow> bool" where
  "is_static b = (\<not> being_resized b)"

definition lock :: "render_selection_editable \<Rightarrow> render_selection_editable" where
  "lock b = b\<lparr>being_resized := False\<rparr>"

subsection \<open>The editor and the outcome of a method\<close>

text \<open>
  The fields of the object. \<open>boxes\<close> is \<open>self._boxes\<close> of the base class. \<open>unloaded\<close>
  records the effect of \<open>box.unload()\<close>: the boxes it was called on, in the order of the
  calls.
\<close>

record editor =
  boxes :: "render_selection list"
  editable :: bool
  active_box :: "render_selection_editable option"
  active_box_index :: "int option"
  last_active_box_index :: "int option"
  hover_box_index :: "int option"
  cursor_position :: point
  unloaded :: "render_selection list"

datatype exn = IndexError | AttributeError | OverflowError

datatype 'a outcome = Returns 'a editor | Raises exn editor

fun final :: "'a outcome \<Rightarrow> editor" where
  "final (Returns v s) = s"
| "final (Raises e s) = s"

fun raised :: "'a outcome \<Rightarrow> bool" where
  "raised (Returns v s) = False"
| "raised (Raises e s) = True"

fun returning :: "'b \<Rightarrow> 'a outcome \<Rightarrow> 'b outcome" where
  "returning v (Returns u s) = Returns v s"
| "returning v (Raises e s) = Raises e s"

text \<open>The position in a list that a Python index denotes, \<open>None\<close> where Python raises.\<close>

definition py_index :: "'a list \<Rightarrow> int \<Rightarrow> nat option" where
  "py_index xs i =
     (if 0 \<le> i \<and> i < int (length xs) then Some (nat i)
      else if i < 0 \<and> 0 \<le> int (length xs) + i then Some (nat (int (length xs) + i))
      else None)"

text \<open>What \<open>list.pop(i)\<close> leaves of the list, for the position the index denotes.\<close>

definition pop_at :: "nat \<Rightarrow> 'a list \<Rightarrow> 'a list" where
  "pop_at k xs = take k xs @ drop (Suc k) xs"

text \<open>\<open>__init__\<close>\<close>

definition init :: editor where
  "init = \<lparr>boxes = [], editable = True, active_box = None, active_box_index = None,
     last_active_box_index = None, hover_box_index = None, cursor_position = (0, 0, 0),
     unloaded = []\<rparr>"

subsection \<open>Creating the active box\<close>

definition create_active_box_from_cursor :: "editor \<Rightarrow> editor" where
  "create_active_box_from_cursor s =
     s\<lparr>active_box := Some (new_editable_render_selection
          \<lparr>point1 := cursor_position s, point2 := cursor_position s\<rparr>),
       last_active_box_index := active_box_index s,
       active_box_index := None\<rparr>"

definition create_active_box :: "editor \<Rightarrow> unit outcome" where
  "create_active_box s =
     (let s1 = s\<lparr>active_box := Some new_editable_render_selection,
                  last_active_box_index := active_box_index s\<rparr>
      in case active_box_index s1 of
           None \<Rightarrow>
             Returns () (s1\<lparr>active_box := Some (new_editable_render_selection
                 \<lparr>point1 := cursor_position s1, point2 := cursor_position s1\<rparr>),
               active_box_index := None\<rparr>)
         | Some i \<Rightarrow>
             (case py_index (boxes s1) i of
                None \<Rightarrow> Raises IndexError s1
              | Some k \<Rightarrow>
                  Returns () (s1\<lparr>active_box := Some (lock (new_editable_render_selection
                    \<lparr>point1 := point1 (boxes s1 ! k), point2 := point2 (boxes s1 ! k)\<rparr>))\<rparr>)))"

subsection \<open>The operations\<close>

text \<open>The setter of the property \<open>editable\<close>.\<close>

definition set_editable :: "bool \<Rightarrow> editor \<Rightarrow> unit outcome" where
  "set_editable v s =
     (let s1 = s\<lparr>editable := v\<rparr>
      in if v \<and> active_box_index s1 \<noteq> None then create_active_box s1
         else Returns () (s1\<lparr>active_box := None\<rparr>))"

text \<open>The loop of \<open>deselect_all\<close>: pop the last box and unload it, until none is left.\<close>

function deselect_all_loop :: "editor \<Rightarrow> editor" where
  "deselect_all_loop s =
     (if boxes s \<noteq> []
      then deselect_all_loop
             (s\<lparr>boxes := butlast (boxes s), unloaded := unloaded s @ [last (boxes s)]\<rparr>)
      else s)"
  by pat_completeness auto
termination
  by (relation "measure (\<lambda>s. length (boxes s))") auto

declare deselect_all_loop.simps [simp del]

definition deselect_all :: "editor \<Rightarrow> editor" where
  "deselect_all s =
     (deselect_all_loop s)\<lparr>active_box := None, active_box_index := None,
        last_active_box_index := None\<rparr>"

definition deselect_active :: "editor \<Rightarrow> unit outcome" where
  "deselect_active s =
     (case active_box_index s of
        Some i \<Rightarrow>
          (case py_index (boxes s) i of
             None \<Rightarrow> Raises IndexError s
           | Some k \<Rightarrow>
               (let s1 = s\<lparr>boxes := pop_at k (boxes s),
                            unloaded := unloaded s @ [boxes s ! k]\<rparr>
                in if boxes s1 \<noteq> []
                   then create_active_box
                          (if 1 \<le> i then s1\<lparr>active_box_index := Some (i - 1)\<rparr> else s1)
                   else Returns () (s1\<lparr>active_box := None, active_box_index := None,
                          last_active_box_index := None\<rparr>)))
      | None \<Rightarrow>
          (case active_box s of
             None \<Rightarrow> Returns () s
           | Some a \<Rightarrow>
               if is_dynamic a \<and> last_active_box_index s \<noteq> None
               then Returns () (s\<lparr>active_box_index := last_active_box_index s\<rparr>)
               else Returns () s))"

text \<open>
  \<open>self._cursor_position\<close> is a numpy array of the type \<open>numpy.int\<close>, the C long,
  taken 64 bits wide. Storing a coordinate that does not fit raises \<open>OverflowError\<close>
  before anything is assigned.
\<close>

definition fits_c_long :: "int \<Rightarrow> bool" where
  "fits_c_long x = (- (2 ^ 63) \<le> x \<and> x < 2 ^ 63)"

text \<open>
  \<open>set_active_point\<close> of \<open>RenderSelectionEditable\<close> is not part of the source at hand;
  it is the parameter \<open>set_active_point\<close>, applied to the position and the active box.
  The condition \<open>if self._active_box\<close> is taken to hold for every box, that is
  whenever the field is not none.
\<close>

definition update_cursor_position ::
  "(point \<Rightarrow> render_selection_editable \<Rightarrow> render_selection_editable) \<Rightarrow>
   point \<Rightarrow> int option \<Rightarrow> editor \<Rightarrow> unit outcome" where
  "update_cursor_position set_active_point position box_index s =
     (case position of
        (x, y, z) \<Rightarrow>
          if fits_c_long x \<and> fits_c_long y \<and> fits_c_long z then
            Returns () (s\<lparr>cursor_position := position,
              hover_box_index := box_index,
              active_box := map_option (set_active_point position) (active_box s)\<rparr>)
          else Raises OverflowError s)"

text \<open>\<open>_box_select_disable\<close>\<close>

definition box_select_disable_impl :: "editor \<Rightarrow> unit outcome" where
  "box_select_disable_impl s =
     (case active_box s of
        None \<Rightarrow> Raises AttributeError s
      | Some a \<Rightarrow>
          (let s1 = s\<lparr>active_box := Some (lock a)\<rparr>
           in case active_box_index s1 of
                None \<Rightarrow>
                  Returns () (s1\<lparr>active_box_index := Some (int (length (boxes s1))),
                    boxes := boxes s1 @ [new_render_selection
                      \<lparr>point1 := point1 (lock a), point2 := point2 (lock a)\<rparr>]\<rparr>)
              | Some i \<Rightarrow>
                  (case py_index (boxes s1) i of
                     None \<Rightarrow> Raises IndexError s1
                   | Some k \<Rightarrow>
                       Returns () (s1\<lparr>boxes := (boxes s1)[k := (boxes s1 ! k)
                         \<lparr>point1 := point1 (lock a), point2 := point2 (lock a)\<rparr>]\<rparr>))))"

definition box_select_disable :: "editor \<Rightarrow> unit outcome" where
  "box_select_disable s =
     (case active_box s of
        None \<Rightarrow> Returns () s
      | Some a \<Rightarrow> if is_dynamic a then box_select_disable_impl s else Returns () s)"

text \<open>
  \<open>unlock\<close> of \<open>RenderSelectionEditable\<close> is not part of the source at hand; it is the
  parameter \<open>unlock\<close>, applied to the cursor position and the active box.
\<close>

definition box_select_toggle ::
  "(point \<Rightarrow> render_selection_editable \<Rightarrow> render_selection_editable) \<Rightarrow>
   bool \<Rightarrow> editor \<Rightarrow> point option outcome" where
  "box_select_toggle unlock add_modifier s =
     (case active_box s of
        None \<Rightarrow> Returns None (create_active_box_from_cursor s)
      | Some a \<Rightarrow>
          if is_static a then
            if hover_box_index s = active_box_index s then
              Returns (Some (cursor_position s))
                (s\<lparr>active_box := Some (unlock (cursor_position s) a),
                   last_active_box_index := active_box_index s\<rparr>)
            else if hover_box_index s \<noteq> None then
              returning None (create_active_box (s\<lparr>active_box_index := hover_box_index s\<rparr>))
            else
              Returns None (create_active_box_from_cursor
                (if \<not> add_modifier then deselect_all s else s))
          else returning None (box_select_disable_impl s))"

subsection \<open>Picking the closest box\<close>

text \<open>
  \<open>intersects_vector\<close> of \<open>RenderSelection\<close> is not part of the source at hand; it is
  the parameter \<open>intersects_vector\<close>, already applied to the origin and the vector of the
  ray: the distance at which the ray meets the box, if it does.

  \<open>tested\<close> is the condition of line 149, under which the loop casts the ray against
  the box at \<open>index\<close>.
\<close>

definition tested :: "editor \<Rightarrow> nat \<Rightarrow> bool" where
  "tested s index =
     (\<not> editable s \<or>
      (case active_box s of
         None \<Rightarrow> True
       | Some a \<Rightarrow> is_static a \<or> Some (int index) \<noteq> active_box_index s))"

fun closest_intersection_loop ::
  "(render_selection \<Rightarrow> real option) \<Rightarrow> editor \<Rightarrow> (nat \<times> render_selection) list \<Rightarrow>
   real \<times> int option \<times> render_selection option \<Rightarrow>
   real \<times> int option \<times> render_selection option" where
  "closest_intersection_loop intersects_vector s [] acc = acc"
| "closest_intersection_loop intersects_vector s ((index, box) # rest)
       (multiplier, index_return, box_return) =
     (if tested s index then
        (case intersects_vector box of
           Some mult \<Rightarrow>
             if mult < multiplier
             then closest_intersection_loop intersects_vector s rest
                    (mult, Some (int index), Some box)
             else closest_intersection_loop intersects_vector s rest
                    (multiplier, index_return, box_return)
         | None \<Rightarrow>
             closest_intersection_loop intersects_vector s rest
               (multiplier, index_return, box_return))
      else closest_intersection_loop intersects_vector s rest
             (multiplier, index_return, box_return))"

definition closest_intersection ::
  "(render_selection \<Rightarrow> real option) \<Rightarrow> editor \<Rightarrow>
   int option \<times> render_selection option" where
  "closest_intersection intersects_vector s =
     snd (closest_intersection_loop intersects_vector s (enumerate 0 (boxes s))
            (999999999, None, None))"

text \<open>
  The loop casts the ray against the box at position \<open>i\<close>, and the ray meets that box at
  the distance \<open>m\<close>, below the multiplier the loop starts with.
\<close>

definition hit :: "(render_selection \<Rightarrow> real option) \<Rightarrow> editor \<Rightarrow> nat \<Rightarrow> real \<Rightarrow> bool" where
  "hit intersects_vector s i m =
     (i < length (boxes s) \<and> tested s i \<and> intersects_vector (boxes s ! i) = Some m \<and>
      m < 999999999)"

subsection \<open>Sequences of operations\<close>

datatype operation =
    SetEditable bool
  | DeselectAll
  | DeselectActive
  | UpdateCursorPosition point "int option"
  | BoxSelectDisable
  | BoxSelectToggle bool

fun step ::
  "(point \<Rightarrow> render_selection_editable \<Rightarrow> render_selection_editable) \<Rightarrow>
   (point \<Rightarrow> render_selection_editable \<Rightarrow> render_selection_editable) \<Rightarrow>
   operation \<Rightarrow> editor \<Rightarrow> unit outcome" where
  "step unlock set_active_point (SetEditable v) s = set_editable v s"
| "step unlock set_active_point DeselectAll s = Returns () (deselect_all s)"
| "step unlock set_active_point DeselectActive s = deselect_active s"
| "step unlock set_active_point (UpdateCursorPosition position box_index) s =
     update_cursor_position set_active_point position box_index s"
| "step unlock set_active_point BoxSelectDisable s = box_select_disable s"
| "step unlock set_active_point (BoxSelectToggle add_modifier) s =
     returning () (box_select_toggle unlock add_modifier s)"

text \<open>Operations one after the other; the first exception ends the sequence.\<close>

fun run ::
  "(point \<Rightarrow> render_selection_editable \<Rightarrow> render_selection_editable) \<Rightarrow>
   (point \<Rightarrow> render_selection_editable \<Rightarrow> render_selection_editable) \<Rightarrow>
   operation list \<Rightarrow> editor \<Rightarrow> unit outcome" where
  "run unlock set_active_point [] s = Returns () s"
| "run unlock set_active_point (operation # rest) s =
     (case step unlock set_active_point operation s of
        Returns u s' \<Rightarrow> run unlock set_active_point rest s'
      | Raises e s' \<Rightarrow> Raises e s')"

subsection \<open>The index invariants\<close>

text \<open>An optional index is below the length of the list: the invariant of the data model.\<close>

definition below_length :: "'a list \<Rightarrow> int option \<Rightarrow> bool" where
  "below_length xs io = (case io of None \<Rightarrow> True | Some i \<Rightarrow> i < int (length xs))"

definition index_invariant :: "editor \<Rightarrow> bool" where
  "index_invariant s =
     (below_length (boxes s) (active_box_index s) \<and>
      below_length (boxes s) (last_active_box_index s))"

text \<open>An optional index is a position of the list, counted from the front.\<close>

definition in_range :: "'a list \<Rightarrow> int option \<Rightarrow> bool" where
  "in_range xs io = (case io of None \<Rightarrow> True | Some i \<Rightarrow> 0 \<le> i \<and> i < int (length xs))"

text \<open>The position an operation stores in the cursor array fits there.\<close>

fun position_fits :: "operation \<Rightarrow> bool" where
  "position_fits (UpdateCursorPosition (x, y, z) box_index) =
     (fits_c_long x \<and> fits_c_long y \<and> fits_c_long z)"
| "position_fits operation = True"

text \<open>
  Every hover index given to \<open>update_cursor_position\<close> in a sequence of operations is
  none or below the length the list of boxes has at that call.
\<close>

fun hover_supplied_ok ::
  "(point \<Rightarrow> render_selection_editable \<Rightarrow> render_selection_editable) \<Rightarrow>
   (point \<Rightarrow> render_selection_editable \<Rightarrow> render_selection_editable) \<Rightarrow>
   operation list \<Rightarrow> editor \<Rightarrow> bool" where
  "hover_supplied_ok unlock set_active_point [] s = True"
| "hover_supplied_ok unlock set_active_point (operation # rest) s =
     ((case operation of
         UpdateCursorPosition position box_index \<Rightarrow> below_length (boxes s) box_index
       | _ \<Rightarrow> True) \<and>
      (case step unlock set_active_point operation s of
         Returns u s' \<Rightarrow> hover_supplied_ok unlock set_active_point rest s'
       | Raises e s' \<Rightarrow> True))"


section \<open>Properties\<close>

subsection \<open>Helper facts\<close>

lemma deselect_all_loop_result:
  "deselect_all_loop s = s\<lparr>boxes := [], unloaded := unloaded s @ rev (boxes s)\<rparr>"
proof (induction s rule: deselect_all_loop.induct)
  case (1 s)
  show ?case
  proof (cases "boxes s = []")
    case True
    then show ?thesis by (subst deselect_all_loop.simps) simp
  next
    case False
    then obtain ys y where ys: "boxes s = ys @ [y]"
      by (metis rev_exhaust)
    from False have "deselect_all_loop s = deselect_all_loop
             (s\<lparr>boxes := butlast (boxes s), unloaded := unloaded s @ [last (boxes s)]\<rparr>)"
      by (subst deselect_all_loop.simps) simp
    also have "\<dots> = s\<lparr>boxes := [], unloaded := unloaded s @ rev (boxes s)\<rparr>"
      using 1 [OF False] ys by simp
    finally show ?thesis .
  qed
qed

lemma create_active_box_in_range:
  "active_box_index s = Some i \<Longrightarrow> 0 \<le> i \<Longrightarrow> i < int (length (boxes s)) \<Longrightarrow>
   create_active_box s = Returns () (s\<lparr>last_active_box_index := Some i,
      active_box := Some \<lparr>point1 = point1 (boxes s ! nat i), point2 = point2 (boxes s ! nat i), being_resized = False\<rparr>\<rparr>)"
  by (simp add: create_active_box_def py_index_def lock_def new_editable_render_selection_def)

lemma length_pop_at: "k < length xs \<Longrightarrow> length (pop_at k xs) = length xs - 1"
  by (auto simp: pop_at_def)

lemma deselect_active_cases:
  assumes "active_box_index s = Some i" and "0 \<le> i" and "i < int (length (boxes s))"
  defines "rest \<equiv> pop_at (nat i) (boxes s)"
  defines "j \<equiv> (if 1 \<le> i then i - 1 else i)"
  shows "rest \<noteq> [] \<Longrightarrow> deselect_active s =
      Returns () (s\<lparr>boxes := rest, unloaded := unloaded s @ [boxes s ! nat i],
        active_box_index := Some j, last_active_box_index := Some j,
        active_box := Some \<lparr>point1 = point1 (rest ! nat j), point2 = point2 (rest ! nat j), being_resized = False\<rparr>\<rparr>)"
   and "rest = [] \<Longrightarrow> deselect_active s =
      Returns () (s\<lparr>boxes := [], unloaded := unloaded s @ [boxes s ! nat i],
        active_box := None, active_box_index := None, last_active_box_index := None\<rparr>)"
proof -
  have len: "int (length rest) = int (length (boxes s)) - 1"
    using assms(2,3) by (simp add: rest_def length_pop_at)
  have k: "py_index (boxes s) i = Some (nat i)"
    using assms(2,3) by (simp add: py_index_def)
  show "rest = [] \<Longrightarrow> deselect_active s =
      Returns () (s\<lparr>boxes := [], unloaded := unloaded s @ [boxes s ! nat i],
        active_box := None, active_box_index := None, last_active_box_index := None\<rparr>)"
    using assms(1) k by (simp add: deselect_active_def rest_def)
  show "deselect_active s =
      Returns () (s\<lparr>boxes := rest, unloaded := unloaded s @ [boxes s ! nat i],
        active_box_index := Some j, last_active_box_index := Some j,
        active_box := Some \<lparr>point1 = point1 (rest ! nat j), point2 = point2 (rest ! nat j), being_resized = False\<rparr>\<rparr>)"
    if ne: "rest \<noteq> []"
  proof -
    from ne have pos: "0 < int (length rest)" by simp
    have jr: "0 \<le> j" "j < int (length rest)"
      using assms(2,3) len pos by (auto simp: j_def)
    let ?s1 = "s\<lparr>boxes := rest, unloaded := unloaded s @ [boxes s ! nat i], active_box_index := Some j\<rparr>"
    have "deselect_active s = create_active_box ?s1"
    proof (cases "1 \<le> i")
      case True
      then show ?thesis
        using assms(1) k ne by (simp add: deselect_active_def rest_def j_def Let_def)
    next
      case False
      then have ji: "j = i" by (simp add: j_def)
      have "?s1 = s\<lparr>boxes := rest, unloaded := unloaded s @ [boxes s ! nat i]\<rparr>"
        unfolding ji assms(1) [symmetric] by simp
      then show ?thesis
        using False assms(1) k ne by (simp add: deselect_active_def rest_def Let_def)
    qed
    also have "\<dots> = Returns () (?s1\<lparr>last_active_box_index := Some j,
      active_box := Some \<lparr>point1 = point1 (boxes ?s1 ! nat j), point2 = point2 (boxes ?s1 ! nat j), being_resized = False\<rparr>\<rparr>)"
      by (rule create_active_box_in_range) (use jr in simp_all)
    finally show ?thesis
      by simp
  qed
qed


subsection \<open>Deselecting everything\<close>

text \<open>
  C8, as the code has it: \<open>deselect_all\<close> empties the list of committed boxes, unloads
  every one of them (the last first), sets the active box to none and resets
  \<open>active_box_index\<close> and \<open>last_active_box_index\<close> to none. Every other field, the
  hover index among them, stays as it was.
\<close>

theorem deselect_all_effect:
  "deselect_all s =
     s\<lparr>boxes := [], unloaded := unloaded s @ rev (boxes s), active_box := None,
       active_box_index := None, last_active_box_index := None\<rparr>"
  by (simp add: deselect_all_def deselect_all_loop_result)

theorem deselect_all_effect_witness:
  "deselect_all (init\<lparr>boxes := [\<lparr>point1 = (0, 0, 0), point2 = (1, 1, 1)\<rparr>,
        \<lparr>point1 = (2, 2, 2), point2 = (3, 3, 3)\<rparr>],
      active_box_index := Some 1, hover_box_index := Some 0\<rparr>) =
   init\<lparr>unloaded := [\<lparr>point1 = (2, 2, 2), point2 = (3, 3, 3)\<rparr>,
        \<lparr>point1 = (0, 0, 0), point2 = (1, 1, 1)\<rparr>],
      hover_box_index := Some 0\<rparr>"
  using deselect_all_effect [of "init\<lparr>boxes := [\<lparr>point1 = (0, 0, 0), point2 = (1, 1, 1)\<rparr>,
        \<lparr>point1 = (2, 2, 2), point2 = (3, 3, 3)\<rparr>],
      active_box_index := Some 1, hover_box_index := Some 0\<rparr>"]
  by (simp add: init_def)

text \<open>
  C8 as the claim states it fails: with one committed box under the cursor, the hover
  index is still set after \<open>deselect_all\<close>.
\<close>

theorem deselect_all_keeps_hover_index:
  "hover_box_index (deselect_all
     (init\<lparr>boxes := [\<lparr>point1 = (0, 0, 0), point2 = (1, 1, 1)\<rparr>],
        hover_box_index := Some 0\<rparr>)) = Some 0"
  by (simp add: deselect_all_def deselect_all_loop_result init_def)

subsection \<open>The editable flag\<close>

text \<open>
  C10: setting \<open>editable\<close> to true while \<open>active_box_index\<close> is none sets the active
  box to none and leaves the committed boxes, and every other field, as they were.
\<close>

theorem set_editable_true_without_index:
  "active_box_index s = None \<Longrightarrow>
   set_editable True s = Returns () (s\<lparr>editable := True, active_box := None\<rparr>)"
  by (simp add: set_editable_def)

theorem set_editable_true_without_index_witness:
  "active_box_index (init\<lparr>editable := False,
      active_box := Some \<lparr>point1 = (1, 2, 3), point2 = (4, 5, 6), being_resized = True\<rparr>\<rparr>) = None \<and>
   set_editable True (init\<lparr>editable := False,
      active_box := Some \<lparr>point1 = (1, 2, 3), point2 = (4, 5, 6), being_resized = True\<rparr>\<rparr>) =
     Returns () init"
  using set_editable_true_without_index [of "init\<lparr>editable := False,
      active_box := Some \<lparr>point1 = (1, 2, 3), point2 = (4, 5, 6), being_resized = True\<rparr>\<rparr>"]
  by (simp add: init_def)

text \<open>
  C6: when \<open>active_box_index\<close> denotes a committed box, setting \<open>editable\<close> to false
  discards the active box only, and setting it to true afterwards rebuilds the active
  box from the committed box at that index: static, with the same two corners. The
  committed boxes are the same throughout.
\<close>

theorem set_editable_round_trip:
  assumes "active_box_index s = Some i" and "py_index (boxes s) i = Some k"
  shows "set_editable False s = Returns () (s\<lparr>editable := False, active_box := None\<rparr>) \<and>
     set_editable True (s\<lparr>editable := False, active_box := None\<rparr>) =
       Returns () (s\<lparr>editable := True, last_active_box_index := Some i,
         active_box := Some \<lparr>point1 = point1 (boxes s ! k), point2 = point2 (boxes s ! k),
           being_resized = False\<rparr>\<rparr>) \<and>
     is_static \<lparr>point1 = point1 (boxes s ! k), point2 = point2 (boxes s ! k),
           being_resized = False\<rparr>"
  using assms
  by (simp add: set_editable_def create_active_box_def is_static_def lock_def
      new_editable_render_selection_def)

theorem set_editable_round_trip_witness:
  "set_editable True (final (set_editable False
     (init\<lparr>boxes := [\<lparr>point1 = (0, 0, 0), point2 = (1, 1, 1)\<rparr>,
          \<lparr>point1 = (2, 2, 2), point2 = (3, 3, 3)\<rparr>],
        active_box := Some \<lparr>point1 = (2, 2, 2), point2 = (7, 7, 7), being_resized = True\<rparr>,
        active_box_index := Some 1\<rparr>))) =
   Returns () (init\<lparr>boxes := [\<lparr>point1 = (0, 0, 0), point2 = (1, 1, 1)\<rparr>,
          \<lparr>point1 = (2, 2, 2), point2 = (3, 3, 3)\<rparr>],
        active_box := Some \<lparr>point1 = (2, 2, 2), point2 = (3, 3, 3), being_resized = False\<rparr>,
        active_box_index := Some 1, last_active_box_index := Some 1\<rparr>)"
  using set_editable_round_trip [of "init\<lparr>boxes := [\<lparr>point1 = (0, 0, 0), point2 = (1, 1, 1)\<rparr>,
          \<lparr>point1 = (2, 2, 2), point2 = (3, 3, 3)\<rparr>],
        active_box := Some \<lparr>point1 = (2, 2, 2), point2 = (7, 7, 7), being_resized = True\<rparr>,
        active_box_index := Some 1\<rparr>" 1 1]
  by (simp add: init_def py_index_def)

subsection \<open>Deselecting the active box\<close>



subsection \<open>Toggling the selection\<close>

text \<open>
  C3, as the code has it: from an editor with no active box, no committed box and no
  hover index, the first \<open>box_select_toggle\<close> without the modifier creates a dynamic
  active box with both corners at the cursor position and commits nothing; the second
  commits it: one committed box with both corners at the cursor position,
  \<open>active_box_index\<close> 0, and the active box locked, that is static. Both calls return
  none.
\<close>

theorem two_toggles_from_empty:
  assumes "active_box s = None" and "boxes s = []" and "hover_box_index s = None"
  shows "box_select_toggle unlock False s =
      Returns None (s\<lparr>active_box := Some \<lparr>point1 = cursor_position s,
           point2 = cursor_position s, being_resized = True\<rparr>,
         last_active_box_index := active_box_index s, active_box_index := None\<rparr>) \<and>
    is_dynamic \<lparr>point1 = cursor_position s, point2 = cursor_position s, being_resized = True\<rparr> \<and>
    box_select_toggle unlock False
      (s\<lparr>active_box := Some \<lparr>point1 = cursor_position s,
           point2 = cursor_position s, being_resized = True\<rparr>,
         last_active_box_index := active_box_index s, active_box_index := None\<rparr>) =
      Returns None (s\<lparr>active_box := Some \<lparr>point1 = cursor_position s,
           point2 = cursor_position s, being_resized = False\<rparr>,
         last_active_box_index := active_box_index s, active_box_index := Some 0,
         boxes := [\<lparr>point1 = cursor_position s, point2 = cursor_position s\<rparr>]\<rparr>) \<and>
    is_static \<lparr>point1 = cursor_position s, point2 = cursor_position s, being_resized = False\<rparr>"
  using assms
  by (simp add: box_select_toggle_def create_active_box_from_cursor_def
      new_editable_render_selection_def is_static_def is_dynamic_def box_select_disable_impl_def
      lock_def new_render_selection_def)

theorem two_toggles_from_empty_witness:
  "box_select_toggle (\<lambda>p b. b) False (final (box_select_toggle (\<lambda>p b. b) False
      (init\<lparr>cursor_position := (3, 4, 5)\<rparr>))) =
    Returns None (init\<lparr>cursor_position := (3, 4, 5),
      active_box := Some \<lparr>point1 = (3, 4, 5), point2 = (3, 4, 5), being_resized = False\<rparr>,
      active_box_index := Some 0,
      boxes := [\<lparr>point1 = (3, 4, 5), point2 = (3, 4, 5)\<rparr>]\<rparr>)"
  using two_toggles_from_empty [of "init\<lparr>cursor_position := (3, 4, 5)\<rparr>" "\<lambda>p b. b"]
  by (simp add: init_def)

text \<open>
  C3 as the claim states it fails: after the second toggle the active box is not a new
  dynamic box, it is the committed one, static.
\<close>

theorem second_toggle_leaves_static_box:
  "map_option is_dynamic (active_box (final (box_select_toggle (\<lambda>p b. b) False
      (final (box_select_toggle (\<lambda>p b. b) False init))))) = Some False"
  by (simp add: box_select_toggle_def create_active_box_from_cursor_def
      new_editable_render_selection_def is_static_def is_dynamic_def box_select_disable_impl_def
      lock_def new_render_selection_def init_def)

text \<open>When the indices are positions of the list, nothing raises.\<close>

lemma create_active_box_returns:
  "in_range (boxes s) (active_box_index s) \<Longrightarrow> \<exists>s'. create_active_box s = Returns () s'"
  by (auto simp: create_active_box_def in_range_def py_index_def split: option.splits)

lemma box_select_disable_impl_returns:
  "active_box s \<noteq> None \<Longrightarrow> in_range (boxes s) (active_box_index s) \<Longrightarrow>
   \<exists>s'. box_select_disable_impl s = Returns () s'"
  by (auto simp: box_select_disable_impl_def in_range_def py_index_def split: option.splits)





subsection \<open>The closest box on a ray\<close>

text \<open>
  The loop either keeps its accumulator, and then no box it casts against is met below
  the multiplier, or ends on one box of the list: the first one among those met at the
  least distance.
\<close>

lemma closest_intersection_loop_cases:
  "(closest_intersection_loop iv s ibs (m0, ir0, br0) = (m0, ir0, br0) \<and>
      (\<forall>(j, c) \<in> set ibs. \<forall>x. tested s j \<longrightarrow> iv c = Some x \<longrightarrow> \<not> x < m0)) \<or>
   (\<exists>pre i b post m. ibs = pre @ (i, b) # post \<and>
      closest_intersection_loop iv s ibs (m0, ir0, br0) = (m, Some (int i), Some b) \<and>
      tested s i \<and> iv b = Some m \<and> m < m0 \<and>
      (\<forall>(j, c) \<in> set pre. \<forall>x. tested s j \<longrightarrow> iv c = Some x \<longrightarrow> m < x) \<and>
      (\<forall>(j, c) \<in> set post. \<forall>x. tested s j \<longrightarrow> iv c = Some x \<longrightarrow> m \<le> x))"
proof (induction ibs arbitrary: m0 ir0 br0)
  case Nil
  then show ?case by simp
next
  case (Cons ib rest)
  obtain i b where ib: "ib = (i, b)" by (cases ib)
  show ?case
  proof (cases "tested s i \<and> (\<exists>x. iv b = Some x \<and> x < m0)")
    case True
    then obtain x where x: "tested s i" "iv b = Some x" "x < m0" by blast
    then have step: "closest_intersection_loop iv s (ib # rest) (m0, ir0, br0) =
        closest_intersection_loop iv s rest (x, Some (int i), Some b)"
      by (simp add: ib)
    from Cons.IH [of x "Some (int i)" "Some b"] show ?thesis
    proof (elim disjE conjE exE)
      assume same: "closest_intersection_loop iv s rest (x, Some (int i), Some b) = (x, Some (int i), Some b)"
        and none: "\<forall>(j, c) \<in> set rest. \<forall>y. tested s j \<longrightarrow> iv c = Some y \<longrightarrow> \<not> y < x"
      have "ib # rest = [] @ (i, b) # rest" by (simp add: ib)
      moreover have "\<forall>(j, c) \<in> set rest. \<forall>y. tested s j \<longrightarrow> iv c = Some y \<longrightarrow> x \<le> y"
        using none by fastforce
      ultimately show ?thesis
        using step same x by (intro disjI2 exI [of _ "[]"] exI [of _ i] exI [of _ b] exI [of _ rest] exI [of _ x]) simp
    next
      fix pre i' b' post m
      assume sp: "rest = pre @ (i', b') # post"
        and res: "closest_intersection_loop iv s rest (x, Some (int i), Some b) = (m, Some (int i'), Some b')"
        and t: "tested s i'" and v: "iv b' = Some m" and lt: "m < x"
        and before: "\<forall>(j, c) \<in> set pre. \<forall>y. tested s j \<longrightarrow> iv c = Some y \<longrightarrow> m < y"
        and after: "\<forall>(j, c) \<in> set post. \<forall>y. tested s j \<longrightarrow> iv c = Some y \<longrightarrow> m \<le> y"
      have "ib # rest = (ib # pre) @ (i', b') # post" by (simp add: sp)
      moreover have "\<forall>(j, c) \<in> set (ib # pre). \<forall>y. tested s j \<longrightarrow> iv c = Some y \<longrightarrow> m < y"
        using before lt x by (auto simp: ib)
      moreover have "m < m0" using lt x by simp
      ultimately show ?thesis
        using step res t v after
        by (intro disjI2 exI [of _ "ib # pre"] exI [of _ i'] exI [of _ b'] exI [of _ post] exI [of _ m]) simp
    qed
  next
    case False
    then have step: "closest_intersection_loop iv s (ib # rest) (m0, ir0, br0) =
        closest_intersection_loop iv s rest (m0, ir0, br0)"
      by (auto simp: ib split: option.splits)
    from False have head: "\<forall>y. tested s i \<longrightarrow> iv b = Some y \<longrightarrow> \<not> y < m0" by blast
    from Cons.IH [of m0 ir0 br0] show ?thesis
    proof (elim disjE conjE exE)
      assume same: "closest_intersection_loop iv s rest (m0, ir0, br0) = (m0, ir0, br0)"
        and none: "\<forall>(j, c) \<in> set rest. \<forall>y. tested s j \<longrightarrow> iv c = Some y \<longrightarrow> \<not> y < m0"
      show ?thesis
        using step same none head by (intro disjI1) (simp add: ib)
    next
      fix pre i' b' post m
      assume sp: "rest = pre @ (i', b') # post"
        and res: "closest_intersection_loop iv s rest (m0, ir0, br0) = (m, Some (int i'), Some b')"
        and t: "tested s i'" and v: "iv b' = Some m" and lt: "m < m0"
        and before: "\<forall>(j, c) \<in> set pre. \<forall>y. tested s j \<longrightarrow> iv c = Some y \<longrightarrow> m < y"
        and after: "\<forall>(j, c) \<in> set post. \<forall>y. tested s j \<longrightarrow> iv c = Some y \<longrightarrow> m \<le> y"
      have "ib # rest = (ib # pre) @ (i', b') # post" by (simp add: sp)
      moreover have "\<forall>(j, c) \<in> set (ib # pre). \<forall>y. tested s j \<longrightarrow> iv c = Some y \<longrightarrow> m < y"
        using before lt head by (fastforce simp: ib)
      ultimately show ?thesis
        using step res t v after lt
        by (intro disjI2 exI [of _ "ib # pre"] exI [of _ i'] exI [of _ b'] exI [of _ post] exI [of _ m]) simp
    qed
  qed
qed


lemma enumerate_split:
  assumes "enumerate 0 xs = pre @ (i, b) # post"
  shows "i = length pre" and "i < length xs" and "b = xs ! i"
    and "\<And>j. j < i \<Longrightarrow> (j, xs ! j) \<in> set pre"
    and "\<And>j. i < j \<Longrightarrow> j < length xs \<Longrightarrow> (j, xs ! j) \<in> set post"
proof -
  have len: "length xs = length pre + Suc (length post)"
    using arg_cong [OF assms, of length] by simp
  then have p: "length pre < length xs" by simp
  have "enumerate 0 xs ! length pre = (i, b)"
    by (simp add: assms)
  moreover from p have "enumerate 0 xs ! length pre = (length pre, xs ! length pre)"
    by (simp add: nth_enumerate_eq)
  ultimately have ib: "(length pre, xs ! length pre) = (i, b)"
    by (rule box_equals) simp_all
  then show i: "i = length pre" by simp
  from p i show "i < length xs" by simp
  from ib show "b = xs ! i" by auto
  show "(j, xs ! j) \<in> set pre" if "j < i" for j
  proof -
    from that i p have "enumerate 0 xs ! j = (j, xs ! j)"
      by (simp add: nth_enumerate_eq)
    moreover from that i have "enumerate 0 xs ! j = pre ! j"
      by (simp add: assms nth_append)
    ultimately show ?thesis
      using that i by (metis nth_mem)
  qed
  show "(j, xs ! j) \<in> set post" if "i < j" and "j < length xs" for j
  proof -
    from that have "enumerate 0 xs ! j = (j, xs ! j)"
      by (simp add: nth_enumerate_eq)
    moreover from that i have "enumerate 0 xs ! j = post ! (j - Suc i)"
      by (simp add: assms nth_append nth_Cons')
    moreover from that i len have "j - Suc i < length post" by simp
    ultimately show ?thesis
      by (metis nth_mem)
  qed
qed

text \<open>
  The result of the loop over all committed boxes: none if the ray meets no box that is
  cast against below the starting multiplier, else the first of the boxes met at the
  least distance.
\<close>

lemma closest_intersection_cases:
  "(\<not> (\<exists>i m. hit iv s i m) \<longrightarrow> closest_intersection iv s = (None, None)) \<and>
   ((\<exists>i m. hit iv s i m) \<longrightarrow>
      (\<exists>i m. hit iv s i m \<and>
         closest_intersection iv s = (Some (int i), Some (boxes s ! i)) \<and>
         (\<forall>j m'. hit iv s j m' \<longrightarrow> m \<le> m') \<and>
         (\<forall>j m'. hit iv s j m' \<longrightarrow> j < i \<longrightarrow> m < m')))"
proof -
  let ?ibs = "enumerate 0 (boxes s)"
  from closest_intersection_loop_cases [of iv s ?ibs 999999999 None None]
  show ?thesis
  proof (elim disjE conjE exE)
    assume same: "closest_intersection_loop iv s ?ibs (999999999, None, None) = (999999999, None, None)"
      and none: "\<forall>(j, c) \<in> set ?ibs. \<forall>x. tested s j \<longrightarrow> iv c = Some x \<longrightarrow> \<not> x < 999999999"
    have "\<not> hit iv s i m" for i m
    proof
      assume h: "hit iv s i m"
      then have "(i, boxes s ! i) \<in> set ?ibs"
        by (simp add: hit_def in_set_enumerate_eq)
      with none h show False
        by (fastforce simp: hit_def)
    qed
    with same show ?thesis
      by (simp add: closest_intersection_def)
  next
    fix pre i b post m
    assume sp: "?ibs = pre @ (i, b) # post"
      and res: "closest_intersection_loop iv s ?ibs (999999999, None, None) = (m, Some (int i), Some b)"
      and t: "tested s i" and v: "iv b = Some m" and lt: "m < 999999999"
      and before: "\<forall>(j, c) \<in> set pre. \<forall>x. tested s j \<longrightarrow> iv c = Some x \<longrightarrow> m < x"
      and after: "\<forall>(j, c) \<in> set post. \<forall>x. tested s j \<longrightarrow> iv c = Some x \<longrightarrow> m \<le> x"
    note e = enumerate_split [OF sp]
    have h: "hit iv s i m"
      using e(2,3) t v lt by (simp add: hit_def)
    have r: "closest_intersection iv s = (Some (int i), Some (boxes s ! i))"
      using res e(3) by (simp add: closest_intersection_def)
    have early: "m < m'" if "hit iv s j m'" and "j < i" for j m'
      using before e(4) [OF that(2)] that(1) by (fastforce simp: hit_def)
    have all: "m \<le> m'" if "hit iv s j m'" for j m'
    proof -
      consider "j < i" | "j = i" | "i < j" by linarith
      then show ?thesis
      proof cases
        case 1
        with early that show ?thesis by fastforce
      next
        case 2
        with that v e(3) show ?thesis by (simp add: hit_def)
      next
        case 3
        with that have "(j, boxes s ! j) \<in> set post"
          by (intro e(5)) (simp_all add: hit_def)
        with after that show ?thesis by (fastforce simp: hit_def)
      qed
    qed
    from h r early all show ?thesis by blast
  qed
qed

lemma closest_intersection_independent:
  assumes "\<forall>i < length (boxes s). tested s i \<longrightarrow> iv (boxes s ! i) = iv' (boxes s ! i)"
  shows "closest_intersection iv s = closest_intersection iv' s"
proof -
  have loop: "(\<forall>(i, b) \<in> set ibs. tested s i \<longrightarrow> iv b = iv' b) \<Longrightarrow>
      closest_intersection_loop iv s ibs acc = closest_intersection_loop iv' s ibs acc"
    for ibs acc
  proof (induction ibs arbitrary: acc)
    case Nil
    then show ?case by simp
  next
    case (Cons ib rest)
    obtain i b where ib: "ib = (i, b)" by (cases ib)
    obtain m ir br where acc: "acc = (m, ir, br)" by (cases acc)
    from Cons.prems have "\<forall>(i, b) \<in> set rest. tested s i \<longrightarrow> iv b = iv' b" by simp
    note IH = Cons.IH [OF this]
    from Cons.prems have "tested s i \<longrightarrow> iv b = iv' b" by (simp add: ib)
    then show ?case
      by (cases "tested s i") (simp_all add: ib acc IH split: option.splits)
  qed
  have "\<forall>(i, b) \<in> set (enumerate 0 (boxes s)). tested s i \<longrightarrow> iv b = iv' b"
    using assms by (auto simp: in_set_enumerate_eq)
  from loop [OF this] show ?thesis
    by (simp add: closest_intersection_def)
qed

text \<open>
  C1, as the code has it: \<open>closest_intersection\<close> casts the ray against every
  committed box but one: the box at \<open>active_box_index\<close> is left out exactly when the
  editor is editable and an active box exists that is dynamic. With a static active box,
  with no active box or in an editor that is not editable, every committed box is cast
  against. In the statement: the loop's condition holds for exactly the boxes not left
  out; a box not left out that the ray meets (below the starting multiplier) makes
  \<open>closest_intersection\<close> return a box that is not left out either, met at that
  distance or a smaller one; the box left out is never returned, and what
  \<open>intersects_vector\<close> would give for it has no effect on the result.
\<close>

theorem closest_intersection_cast_boxes:
  "let left_out = (\<lambda>i. editable s \<and> (\<exists>a. active_box s = Some a \<and> is_dynamic a) \<and>
         active_box_index s = Some (int i)) in
   (tested s index \<longleftrightarrow> \<not> left_out index) \<and>
   (\<not> editable s \<or> active_box s = None \<or> (\<exists>a. active_box s = Some a \<and> is_static a) \<longrightarrow>
      \<not> left_out index) \<and>
   (index < length (boxes s) \<and> \<not> left_out index \<longrightarrow>
      (\<forall>m. iv (boxes s ! index) = Some m \<and> m < 999999999 \<longrightarrow>
         (\<exists>j m'. j < length (boxes s) \<and> \<not> left_out j \<and>
            iv (boxes s ! j) = Some m' \<and> m' \<le> m \<and>
            closest_intersection iv s = (Some (int j), Some (boxes s ! j))))) \<and>
   (left_out index \<longrightarrow> fst (closest_intersection iv s) \<noteq> Some (int index)) \<and>
   ((\<forall>i < length (boxes s). \<not> left_out i \<longrightarrow> iv (boxes s ! i) = iv' (boxes s ! i)) \<longrightarrow>
      closest_intersection iv s = closest_intersection iv' s)"
proof -
  define left_out where "left_out = (\<lambda>i. editable s \<and>
    (\<exists>a. active_box s = Some a \<and> is_dynamic a) \<and> active_box_index s = Some (int i))"
  have t: "tested s i \<longleftrightarrow> \<not> left_out i" for i
    by (auto simp: left_out_def tested_def is_static_def is_dynamic_def split: option.splits)
  have static: "\<not> editable s \<or> active_box s = None \<or>
      (\<exists>a. active_box s = Some a \<and> is_static a) \<longrightarrow> \<not> left_out index"
    by (auto simp: left_out_def is_static_def is_dynamic_def)
  have cast: "\<exists>j m'. j < length (boxes s) \<and> \<not> left_out j \<and>
            iv (boxes s ! j) = Some m' \<and> m' \<le> m \<and>
            closest_intersection iv s = (Some (int j), Some (boxes s ! j))"
    if "index < length (boxes s)" and "\<not> left_out index"
      and "iv (boxes s ! index) = Some m" and "m < 999999999" for m
  proof -
    from that have h: "hit iv s index m"
      by (simp add: hit_def t)
    with closest_intersection_cases [of iv s] obtain j m' where
      j: "hit iv s j m'" "closest_intersection iv s = (Some (int j), Some (boxes s ! j))"
      and least: "\<forall>k x. hit iv s k x \<longrightarrow> m' \<le> x"
      by blast
    from least h have "m' \<le> m" by blast
    with j show ?thesis
      by (auto simp: hit_def t)
  qed
  have never: "fst (closest_intersection iv s) \<noteq> Some (int index)" if "left_out index"
  proof (cases "\<exists>i m. hit iv s i m")
    case False
    with closest_intersection_cases [of iv s] show ?thesis by simp
  next
    case True
    with closest_intersection_cases [of iv s] obtain j m' where
      j: "hit iv s j m'" "closest_intersection iv s = (Some (int j), Some (boxes s ! j))"
      by blast
    from j(1) have "\<not> left_out j" by (simp add: hit_def t)
    with that have "j \<noteq> index" by blast
    with j(2) show ?thesis by simp
  qed
  have indep: "closest_intersection iv s = closest_intersection iv' s"
    if "\<forall>i < length (boxes s). \<not> left_out i \<longrightarrow> iv (boxes s ! i) = iv' (boxes s ! i)"
    by (rule closest_intersection_independent) (use that in \<open>simp add: t\<close>)
  from t [of index] static cast never indep show ?thesis
    unfolding Let_def left_out_def [symmetric] by blast
qed

theorem closest_intersection_cast_boxes_witness:
  "closest_intersection
     (\<lambda>b. if point1 b = (0, 0, 0) then Some 1 else if point1 b = (2, 2, 2) then Some 5 else None)
     (init\<lparr>boxes := [\<lparr>point1 = (0, 0, 0), point2 = (1, 1, 1)\<rparr>,
          \<lparr>point1 = (2, 2, 2), point2 = (3, 3, 3)\<rparr>],
        active_box := Some \<lparr>point1 = (0, 0, 0), point2 = (7, 7, 7), being_resized = True\<rparr>,
        active_box_index := Some 0\<rparr>) =
   (Some 1, Some \<lparr>point1 = (2, 2, 2), point2 = (3, 3, 3)\<rparr>)"
proof -
  let ?iv = "\<lambda>b::render_selection.
     if point1 b = (0, 0, 0) then Some (1::real) else if point1 b = (2, 2, 2) then Some 5 else None"
  let ?s = "init\<lparr>boxes := [\<lparr>point1 = (0, 0, 0), point2 = (1, 1, 1)\<rparr>,
          \<lparr>point1 = (2, 2, 2), point2 = (3, 3, 3)\<rparr>],
        active_box := Some \<lparr>point1 = (0, 0, 0), point2 = (7, 7, 7), being_resized = True\<rparr>,
        active_box_index := Some 0\<rparr>"
  from closest_intersection_cast_boxes [of ?s 1 ?iv ?iv]
  obtain j m' where j: "j < 2"
    and nl: "\<not> (editable ?s \<and> (\<exists>a. active_box ?s = Some a \<and> is_dynamic a) \<and>
         active_box_index ?s = Some (int j))"
    and r: "closest_intersection ?iv ?s = (Some (int j), Some (boxes ?s ! j))"
    by (auto simp: Let_def init_def)
  from nl have "j \<noteq> 0" by (auto simp: init_def is_dynamic_def)
  with j have "j = 1" by simp
  with r show ?thesis by (simp add: init_def)
qed

text \<open>
  C1 as the claim states it fails both ways: a dynamic active box at index 0 hides the
  only committed box from the ray, and a static one does not.
\<close>

theorem dynamic_active_box_is_skipped:
  "closest_intersection (\<lambda>b. Some 1)
     (init\<lparr>boxes := [\<lparr>point1 = (0, 0, 0), point2 = (1, 1, 1)\<rparr>],
        active_box := Some \<lparr>point1 = (0, 0, 0), point2 = (7, 7, 7), being_resized = True\<rparr>,
        active_box_index := Some 0\<rparr>) = (None, None) \<and>
   closest_intersection (\<lambda>b. Some 1)
     (init\<lparr>boxes := [\<lparr>point1 = (0, 0, 0), point2 = (1, 1, 1)\<rparr>],
        active_box := Some \<lparr>point1 = (0, 0, 0), point2 = (1, 1, 1), being_resized = False\<rparr>,
        active_box_index := Some 0\<rparr>) = (Some 0, Some \<lparr>point1 = (0, 0, 0), point2 = (1, 1, 1)\<rparr>)"
  by (simp add: closest_intersection_def tested_def init_def is_static_def)

text \<open>
  C4: the box with the least positive distance is to be returned, and (none, none) only
  when the ray meets no eligible box. The code falls short of this: a box that the
  ray meets at the distance 999999999, the number the running minimum starts with, is
  cast against and met, and still the result is (none, none).
\<close>

theorem closest_intersection_misses_far_box:
  "tested (init\<lparr>boxes := [\<lparr>point1 = (0, 0, 0), point2 = (1, 1, 1)\<rparr>]\<rparr>) 0 \<and>
   closest_intersection (\<lambda>b. Some 999999999)
     (init\<lparr>boxes := [\<lparr>point1 = (0, 0, 0), point2 = (1, 1, 1)\<rparr>]\<rparr>) = (None, None)"
  by (simp add: closest_intersection_def tested_def init_def)

theorem closest_intersection_misses_far_box_witness:
  "active_box (init\<lparr>boxes := [\<lparr>point1 = (0, 0, 0), point2 = (1, 1, 1)\<rparr>]\<rparr>) = None \<and>
   fst (closest_intersection (\<lambda>b. Some 999999999)
     (init\<lparr>boxes := [\<lparr>point1 = (0, 0, 0), point2 = (1, 1, 1)\<rparr>]\<rparr>)) = None"
  using closest_intersection_misses_far_box by (simp add: init_def)

subsection \<open>The index invariant\<close>

text \<open>What each method does to the two indices, also when it raises.\<close>

lemma final_returning: "final (returning v r) = final r"
  by (cases r) simp_all

lemma raised_returning: "raised (returning v r) = raised r"
  by (cases r) simp_all

lemma create_active_box_fields:
  "boxes (final (create_active_box s)) = boxes s"
  "active_box_index (final (create_active_box s)) = active_box_index s"
  "last_active_box_index (final (create_active_box s)) = active_box_index s"
  by (simp_all add: create_active_box_def Let_def split: option.splits)

lemma create_active_box_invariant:
  "below_length (boxes s) (active_box_index s) \<Longrightarrow> index_invariant (final (create_active_box s))"
  by (simp add: index_invariant_def create_active_box_fields)

lemma box_select_disable_impl_fields:
  "last_active_box_index (final (box_select_disable_impl s)) = last_active_box_index s"
  "length (boxes s) \<le> length (boxes (final (box_select_disable_impl s)))"
  "active_box_index (final (box_select_disable_impl s)) =
     (if active_box s \<noteq> None \<and> active_box_index s = None
      then Some (int (length (boxes s))) else active_box_index s)"
  "active_box s \<noteq> None \<Longrightarrow> active_box_index s = None \<Longrightarrow>
     length (boxes (final (box_select_disable_impl s))) = Suc (length (boxes s))"
  by (simp_all add: box_select_disable_impl_def Let_def split: option.splits)

lemma create_active_box_from_cursor_invariant:
  "below_length (boxes s) (active_box_index s) \<Longrightarrow> index_invariant (create_active_box_from_cursor s)"
  by (simp add: create_active_box_from_cursor_def index_invariant_def below_length_def)

lemma deselect_all_invariant: "index_invariant (deselect_all s)"
  by (simp add: deselect_all_def index_invariant_def below_length_def)

lemma deselect_all_no_index: "active_box_index (deselect_all s) = None"
  by (simp add: deselect_all_def)

lemma py_index_less: "py_index xs i = Some k \<Longrightarrow> k < length xs"
  by (auto simp: py_index_def split: if_splits)

lemma deselect_active_invariant:
  assumes "index_invariant s"
  shows "index_invariant (final (deselect_active s))"
proof (cases "active_box_index s")
  case None
  with assms show ?thesis
    by (auto simp: deselect_active_def index_invariant_def below_length_def split: option.splits)
next
  case (Some i)
  show ?thesis
  proof (cases "py_index (boxes s) i")
    case None
    with Some assms show ?thesis by (simp add: deselect_active_def)
  next
    case k: (Some k)
    let ?s1 = "s\<lparr>boxes := pop_at k (boxes s), unloaded := unloaded s @ [boxes s ! k]\<rparr>"
    have len: "length (pop_at k (boxes s)) = length (boxes s) - 1"
      using py_index_less [OF k] by (rule length_pop_at)
    have il: "i < int (length (boxes s))"
      using assms Some by (simp add: index_invariant_def below_length_def)
    show ?thesis
    proof (cases "pop_at k (boxes s) = []")
      case True
      with Some k show ?thesis
        by (simp add: deselect_active_def index_invariant_def below_length_def)
    next
      case False
      then have pos: "0 < length (pop_at k (boxes s))" by simp
      let ?s2 = "if 1 \<le> i then ?s1\<lparr>active_box_index := Some (i - 1)\<rparr> else ?s1"
      have "below_length (boxes ?s2) (active_box_index ?s2)"
        using il len pos Some by (auto simp: below_length_def)
      then have "index_invariant (final (create_active_box ?s2))"
        by (rule create_active_box_invariant)
      moreover have "deselect_active s = create_active_box ?s2"
        using Some k False by (simp add: deselect_active_def Let_def)
      ultimately show ?thesis by simp
    qed
  qed
qed

lemma box_select_disable_impl_invariant:
  assumes "index_invariant s"
  shows "index_invariant (final (box_select_disable_impl s))"
proof -
  let ?s' = "final (box_select_disable_impl s)"
  have "below_length (boxes ?s') (last_active_box_index ?s')"
    using assms box_select_disable_impl_fields(2) [of s]
    by (auto simp: box_select_disable_impl_fields(1) index_invariant_def below_length_def
        split: option.splits)
  moreover have "below_length (boxes ?s') (active_box_index ?s')"
  proof (cases "active_box s \<noteq> None \<and> active_box_index s = None")
    case True
    then show ?thesis
      by (simp add: box_select_disable_impl_fields(3,4) below_length_def)
  next
    case False
    then have "active_box_index ?s' = active_box_index s"
      by (simp add: box_select_disable_impl_fields(3))
    with assms box_select_disable_impl_fields(2) [of s] show ?thesis
      by (auto simp: index_invariant_def below_length_def split: option.splits)
  qed
  ultimately show ?thesis by (simp add: index_invariant_def)
qed

lemma box_select_toggle_invariant:
  assumes "index_invariant s" and "below_length (boxes s) (hover_box_index s)"
  shows "index_invariant (final (box_select_toggle unlock add_modifier s))"
proof (cases "active_box s")
  case None
  have "index_invariant (create_active_box_from_cursor s)"
    by (rule create_active_box_from_cursor_invariant)
      (use assms in \<open>simp add: index_invariant_def\<close>)
  with None show ?thesis
    by (simp add: box_select_toggle_def)
next
  case (Some a)
  show ?thesis
  proof (cases "is_static a")
    case False
    with Some assms show ?thesis
      by (simp add: box_select_toggle_def final_returning box_select_disable_impl_invariant)
  next
    case True
    consider "hover_box_index s = active_box_index s"
      | "hover_box_index s \<noteq> active_box_index s" "hover_box_index s \<noteq> None"
      | "hover_box_index s \<noteq> active_box_index s" "hover_box_index s = None" by blast
    then show ?thesis
    proof cases
      case 1
      with Some True assms show ?thesis
        by (simp add: box_select_toggle_def index_invariant_def)
    next
      case 2
      have "index_invariant (final (create_active_box (s\<lparr>active_box_index := hover_box_index s\<rparr>)))"
        by (rule create_active_box_invariant) (use assms in simp)
      with 2 Some True show ?thesis
        by (simp add: box_select_toggle_def final_returning)
    next
      case 3
      have "index_invariant (create_active_box_from_cursor (if \<not> add_modifier then deselect_all s else s))"
        by (rule create_active_box_from_cursor_invariant)
          (use assms in \<open>simp add: deselect_all_no_index index_invariant_def below_length_def\<close>)
      with 3 Some True show ?thesis
        by (simp add: box_select_toggle_def)
    qed
  qed
qed

text \<open>
  C2, as the code has it: every operation keeps \<open>active_box_index\<close> and
  \<open>last_active_box_index\<close>, where they are not none, below the length of the list of
  committed boxes, when it starts from a state in which this holds and in which the
  hover index is none or below that length. The state an operation leaves when it raises
  is included.
\<close>

theorem index_invariant_preserved:
  assumes "index_invariant s" and "below_length (boxes s) (hover_box_index s)"
  shows "index_invariant (final (step unlock set_active_point operation s))"
proof (cases operation)
  case (SetEditable v)
  show ?thesis
  proof (cases "v \<and> active_box_index s \<noteq> None")
    case True
    have "index_invariant (final (create_active_box (s\<lparr>editable := v\<rparr>)))"
      by (rule create_active_box_invariant) (use assms in \<open>simp add: index_invariant_def\<close>)
    with True SetEditable show ?thesis by (simp add: set_editable_def)
  next
    case False
    with SetEditable assms show ?thesis
      by (auto simp: set_editable_def index_invariant_def)
  qed
next
  case DeselectAll
  then show ?thesis by (simp add: deselect_all_invariant)
next
  case DeselectActive
  with assms show ?thesis by (simp add: deselect_active_invariant)
next
  case (UpdateCursorPosition position box_index)
  with assms show ?thesis
    by (auto simp: update_cursor_position_def index_invariant_def split: prod.splits)
next
  case BoxSelectDisable
  with assms show ?thesis
    by (auto simp: box_select_disable_def box_select_disable_impl_invariant split: option.splits)
next
  case (BoxSelectToggle add_modifier)
  with assms show ?thesis
    by (simp add: final_returning box_select_toggle_invariant)
qed


theorem index_invariant_preserved_witness:
  "index_invariant (init\<lparr>boxes := [\<lparr>point1 = (0, 0, 0), point2 = (1, 1, 1)\<rparr>,
        \<lparr>point1 = (2, 2, 2), point2 = (3, 3, 3)\<rparr>],
      active_box := Some \<lparr>point1 = (0, 0, 0), point2 = (1, 1, 1), being_resized = False\<rparr>,
      active_box_index := Some 0, last_active_box_index := Some 0,
      hover_box_index := Some 1\<rparr>) \<and>
   index_invariant (final (step (\<lambda>p b. b) (\<lambda>p b. b) (BoxSelectToggle False)
     (init\<lparr>boxes := [\<lparr>point1 = (0, 0, 0), point2 = (1, 1, 1)\<rparr>,
        \<lparr>point1 = (2, 2, 2), point2 = (3, 3, 3)\<rparr>],
      active_box := Some \<lparr>point1 = (0, 0, 0), point2 = (1, 1, 1), being_resized = False\<rparr>,
      active_box_index := Some 0, last_active_box_index := Some 0,
      hover_box_index := Some 1\<rparr>)))"
  using index_invariant_preserved [of "init\<lparr>boxes := [\<lparr>point1 = (0, 0, 0), point2 = (1, 1, 1)\<rparr>,
        \<lparr>point1 = (2, 2, 2), point2 = (3, 3, 3)\<rparr>],
      active_box := Some \<lparr>point1 = (0, 0, 0), point2 = (1, 1, 1), being_resized = False\<rparr>,
      active_box_index := Some 0, last_active_box_index := Some 0,
      hover_box_index := Some 1\<rparr>" "\<lambda>p b. b" "\<lambda>p b. b" "BoxSelectToggle False"]
  by (simp add: init_def index_invariant_def below_length_def)

text \<open>
  C2 as the claim states it fails. A hover index that was below the length when
  \<open>update_cursor_position\<close> received it stays in the editor when \<open>deselect_active\<close>
  shortens the list. Here two boxes are committed, the cursor hovers over the second,
  the second is deselected, and the next toggle makes the stale hover index 1 the
  active index of a list of length 1, then raises.
\<close>

theorem stale_hover_index_breaks_invariant:
  "index_invariant init \<and>
   hover_supplied_ok (\<lambda>p b. b) (\<lambda>p b. b)
     [BoxSelectToggle False, BoxSelectToggle False, UpdateCursorPosition (5, 5, 5) None,
      BoxSelectToggle True, BoxSelectToggle False, UpdateCursorPosition (5, 5, 5) (Some 1),
      DeselectActive, BoxSelectToggle False] init \<and>
   run (\<lambda>p b. b) (\<lambda>p b. b)
     [BoxSelectToggle False, BoxSelectToggle False, UpdateCursorPosition (5, 5, 5) None,
      BoxSelectToggle True, BoxSelectToggle False, UpdateCursorPosition (5, 5, 5) (Some 1),
      DeselectActive, BoxSelectToggle False] init =
   Raises IndexError
     \<lparr>boxes = [\<lparr>point1 = (0, 0, 0), point2 = (0, 0, 0)\<rparr>], editable = True,
      active_box = Some \<lparr>point1 = (0, 0, 0), point2 = (0, 0, 0), being_resized = True\<rparr>,
      active_box_index = Some 1, last_active_box_index = Some 1, hover_box_index = Some 1,
      cursor_position = (5, 5, 5),
      unloaded = [\<lparr>point1 = (5, 5, 5), point2 = (5, 5, 5)\<rparr>]\<rparr> \<and>
   \<not> index_invariant (final (run (\<lambda>p b. b) (\<lambda>p b. b)
     [BoxSelectToggle False, BoxSelectToggle False, UpdateCursorPosition (5, 5, 5) None,
      BoxSelectToggle True, BoxSelectToggle False, UpdateCursorPosition (5, 5, 5) (Some 1),
      DeselectActive, BoxSelectToggle False] init))"
  by (simp add: init_def index_invariant_def below_length_def box_select_toggle_def
      create_active_box_from_cursor_def create_active_box_def box_select_disable_impl_def
      deselect_active_def update_cursor_position_def fits_c_long_def py_index_def pop_at_def
      lock_def is_static_def is_dynamic_def new_editable_render_selection_def
      new_render_selection_def Let_def)

subsection \<open>No operation raises from a well-indexed state\<close>

lemma deselect_active_returns:
  assumes "in_range (boxes s) (active_box_index s)"
  shows "\<not> raised (deselect_active s)"
proof (cases "active_box_index s")
  case None
  then show ?thesis
    by (simp add: deselect_active_def split: option.splits)
next
  case (Some i)
  with assms have r: "0 \<le> i" "i < int (length (boxes s))"
    by (simp_all add: in_range_def)
  show ?thesis
  proof (cases "pop_at (nat i) (boxes s) = []")
    case True
    from deselect_active_cases(2) [OF Some r True] show ?thesis by simp
  next
    case False
    from deselect_active_cases(1) [OF Some r False] show ?thesis by simp
  qed
qed

text \<open>
  C9, as the code has it: from a state in which \<open>active_box_index\<close> and the hover index
  are none or positions of the list of committed boxes, no operation raises, given that
  the coordinates of a position passed to \<open>update_cursor_position\<close> fit the cursor
  array. And
  \<open>deselect_active\<close> with no active index, and no dynamic active box to go back from,
  leaves the state as it is, as does \<open>box_select_disable\<close> with no active box or a
  static one.
\<close>

theorem operations_total:
  "(in_range (boxes s) (active_box_index s) \<and> in_range (boxes s) (hover_box_index s) \<and>
    position_fits operation \<longrightarrow>
      \<not> raised (step unlock set_active_point operation s)) \<and>
   (active_box_index s = None \<and>
    (\<forall>a. active_box s = Some a \<longrightarrow> is_static a \<or> last_active_box_index s = None) \<longrightarrow>
      deselect_active s = Returns () s) \<and>
   ((\<forall>a. active_box s = Some a \<longrightarrow> is_static a) \<longrightarrow> box_select_disable s = Returns () s)"
proof (intro conjI impI)
  assume "active_box_index s = None \<and>
    (\<forall>a. active_box s = Some a \<longrightarrow> is_static a \<or> last_active_box_index s = None)"
  then show "deselect_active s = Returns () s"
    by (auto simp: deselect_active_def is_static_def is_dynamic_def split: option.splits)
next
  assume "\<forall>a. active_box s = Some a \<longrightarrow> is_static a"
  then show "box_select_disable s = Returns () s"
    by (auto simp: box_select_disable_def is_static_def is_dynamic_def split: option.splits)
next
  assume a: "in_range (boxes s) (active_box_index s) \<and> in_range (boxes s) (hover_box_index s) \<and>
    position_fits operation"
  then have r: "in_range (boxes s) (active_box_index s) \<and> in_range (boxes s) (hover_box_index s)"
    and f: "position_fits operation" by simp_all
  show "\<not> raised (step unlock set_active_point operation s)"
  proof (cases operation)
    case (SetEditable v)
    have "in_range (boxes (s\<lparr>editable := v\<rparr>)) (active_box_index (s\<lparr>editable := v\<rparr>))"
      using r by simp
    from create_active_box_returns [OF this] have "\<not> raised (create_active_box (s\<lparr>editable := v\<rparr>))"
      by auto
    with SetEditable show ?thesis by (cases v) (simp_all add: set_editable_def Let_def)
  next
    case DeselectAll
    then show ?thesis by simp
  next
    case DeselectActive
    with r show ?thesis by (simp add: deselect_active_returns)
  next
    case (UpdateCursorPosition position box_index)
    with f show ?thesis
      by (cases position) (simp add: update_cursor_position_def)
  next
    case BoxSelectDisable
    show ?thesis
    proof (cases "active_box s")
      case None
      with BoxSelectDisable show ?thesis by (simp add: box_select_disable_def)
    next
      case (Some a)
      with r have "\<not> raised (box_select_disable_impl s)"
        using box_select_disable_impl_returns [of s] by auto
      with Some BoxSelectDisable show ?thesis by (simp add: box_select_disable_def)
    qed
  next
    case (BoxSelectToggle add_modifier)
    show ?thesis
    proof (cases "(\<exists>a. active_box s = Some a \<and> is_static a) \<and> hover_box_index s = active_box_index s")
      case True
      then show ?thesis
        by (auto simp: BoxSelectToggle box_select_toggle_def)
    next
      case False
      show ?thesis
      proof (cases "active_box s")
        case None
        then show ?thesis by (simp add: BoxSelectToggle box_select_toggle_def)
      next
        case (Some a)
        show ?thesis
        proof (cases "is_static a")
          case static: True
          with False Some have ne: "hover_box_index s \<noteq> active_box_index s" by simp
          show ?thesis
          proof (cases "hover_box_index s")
            case None
            with Some static ne show ?thesis
              by (simp add: BoxSelectToggle box_select_toggle_def)
          next
            case h: (Some h)
            have "in_range (boxes (s\<lparr>active_box_index := hover_box_index s\<rparr>))
                    (active_box_index (s\<lparr>active_box_index := hover_box_index s\<rparr>))"
              using r by simp
            from create_active_box_returns [OF this]
            have "\<not> raised (create_active_box (s\<lparr>active_box_index := hover_box_index s\<rparr>))"
              by auto
            with Some static ne h show ?thesis
              by (simp add: BoxSelectToggle box_select_toggle_def raised_returning)
          qed
        next
          case dynamic: False
          from Some r have "\<not> raised (box_select_disable_impl s)"
            using box_select_disable_impl_returns [of s] by auto
          with Some dynamic show ?thesis
            by (simp add: BoxSelectToggle box_select_toggle_def raised_returning)
        qed
      qed
    qed
  qed
qed

theorem operations_total_witness:
  "\<not> raised (step (\<lambda>p b. b) (\<lambda>p b. b) (BoxSelectToggle False)
     (init\<lparr>boxes := [\<lparr>point1 = (0, 0, 0), point2 = (1, 1, 1)\<rparr>,
        \<lparr>point1 = (2, 2, 2), point2 = (3, 3, 3)\<rparr>],
      active_box := Some \<lparr>point1 = (0, 0, 0), point2 = (1, 1, 1), being_resized = False\<rparr>,
      active_box_index := Some 0, last_active_box_index := Some 0,
      hover_box_index := Some 1\<rparr>)) \<and>
   \<not> raised (step (\<lambda>p b. b) (\<lambda>p b. b) (UpdateCursorPosition (3, - 4, 5) None) init) \<and>
   deselect_active init = Returns () init \<and>
   box_select_disable
     (init\<lparr>boxes := [\<lparr>point1 = (0, 0, 0), point2 = (1, 1, 1)\<rparr>],
      active_box := Some \<lparr>point1 = (0, 0, 0), point2 = (1, 1, 1), being_resized = False\<rparr>,
      active_box_index := Some 0\<rparr>) =
   Returns ()
     (init\<lparr>boxes := [\<lparr>point1 = (0, 0, 0), point2 = (1, 1, 1)\<rparr>],
      active_box := Some \<lparr>point1 = (0, 0, 0), point2 = (1, 1, 1), being_resized = False\<rparr>,
      active_box_index := Some 0\<rparr>)"
  using operations_total [of "init\<lparr>boxes := [\<lparr>point1 = (0, 0, 0), point2 = (1, 1, 1)\<rparr>,
        \<lparr>point1 = (2, 2, 2), point2 = (3, 3, 3)\<rparr>],
      active_box := Some \<lparr>point1 = (0, 0, 0), point2 = (1, 1, 1), being_resized = False\<rparr>,
      active_box_index := Some 0, last_active_box_index := Some 0,
      hover_box_index := Some 1\<rparr>" "BoxSelectToggle False" "\<lambda>p b. b" "\<lambda>p b. b"]
    operations_total [of init "UpdateCursorPosition (3, - 4, 5) None" "\<lambda>p b. b" "\<lambda>p b. b"]
    operations_total [of "init\<lparr>boxes := [\<lparr>point1 = (0, 0, 0), point2 = (1, 1, 1)\<rparr>],
      active_box := Some \<lparr>point1 = (0, 0, 0), point2 = (1, 1, 1), being_resized = False\<rparr>,
      active_box_index := Some 0\<rparr>" DeselectAll "\<lambda>p b. b" "\<lambda>p b. b"]
  by (simp add: init_def in_range_def is_static_def fits_c_long_def)

text \<open>
  C9 as the claim states it fails: both indices are below the length, the hover index is
  not, and \<open>box_select_toggle\<close> raises.
\<close>

theorem toggle_raises_on_stale_hover_index:
  "index_invariant (init\<lparr>boxes := [\<lparr>point1 = (0, 0, 0), point2 = (1, 1, 1)\<rparr>],
      active_box := Some \<lparr>point1 = (0, 0, 0), point2 = (1, 1, 1), being_resized = False\<rparr>,
      active_box_index := Some 0, last_active_box_index := Some 0,
      hover_box_index := Some 1\<rparr>) \<and>
   box_select_toggle (\<lambda>p b. b) False
     (init\<lparr>boxes := [\<lparr>point1 = (0, 0, 0), point2 = (1, 1, 1)\<rparr>],
      active_box := Some \<lparr>point1 = (0, 0, 0), point2 = (1, 1, 1), being_resized = False\<rparr>,
      active_box_index := Some 0, last_active_box_index := Some 0,
      hover_box_index := Some 1\<rparr>) =
   Raises IndexError
     (init\<lparr>boxes := [\<lparr>point1 = (0, 0, 0), point2 = (1, 1, 1)\<rparr>],
      active_box := Some \<lparr>point1 = (0, 0, 0), point2 = (0, 0, 0), being_resized = True\<rparr>,
      active_box_index := Some 1, last_active_box_index := Some 1,
      hover_box_index := Some 1\<rparr>)"
  by (simp add: init_def index_invariant_def below_length_def box_select_toggle_def
      create_active_box_def py_index_def is_static_def new_editable_render_selection_def)


end
